theory Spec2Isabelle
  imports Main
begin

section \<open>Text\<close>

text \<open>
  Python strings are modelled as \<^typ>\<open>string\<close>, a list of characters read as code points
  below 256. The character classes below are those of Python's \<^verbatim>\<open>str\<close> methods on that
  range.
\<close>

definition py_isspace :: "char \<Rightarrow> bool" where
  "py_isspace c = ((of_char c :: nat) \<in> {9, 10, 11, 12, 13, 28, 29, 30, 31, 32, 133, 160})"

definition strip :: "string \<Rightarrow> string" where
  "strip s = rev (dropWhile py_isspace (rev (dropWhile py_isspace s)))"

text \<open>\<^verbatim>\<open>s.replace(old, new)\<close> for a one-character \<^verbatim>\<open>old\<close>.\<close>

definition replace_chr :: "char \<Rightarrow> string \<Rightarrow> string \<Rightarrow> string" where
  "replace_chr old new s = concat (map (\<lambda>c. if c = old then new else [c]) s)"

fun startswith :: "string \<Rightarrow> string \<Rightarrow> bool" where
  "startswith s [] = True"
| "startswith [] (p # ps) = False"
| "startswith (c # cs) (p # ps) = (c = p \<and> startswith cs ps)"

definition the_default :: "'a \<Rightarrow> 'a option \<Rightarrow> 'a" where
  "the_default d x = (case x of None \<Rightarrow> d | Some v \<Rightarrow> v)"

section \<open>xml_escape\<close>

text \<open>The argument is \<^verbatim>\<open>str | None\<close>; \<^verbatim>\<open>not s\<close> holds for \<^verbatim>\<open>None\<close> and for the empty string.\<close>

definition xml_escape :: "string option \<Rightarrow> string" where
  \<open>xml_escape s =
     (case s of
        None \<Rightarrow> []
      | Some t \<Rightarrow>
          if t = [] then []
          else replace_chr (CHR 0x27) ''&apos;''
                 (replace_chr (CHR ''"'') ''&quot;''
                   (replace_chr (CHR ''>'') ''&gt;''
                     (replace_chr (CHR ''<'') ''&lt;''
                       (replace_chr (CHR ''&'') ''&amp;'' t)))))\<close>

section \<open>The envelope builder\<close>

text \<open>
  The four line edits read by \<^verbatim>\<open>build_tnt\<close>, by their current text.
\<close>

record protocol_context =
  edAgent :: string
  edIface :: string
  edDB :: string
  edNS :: string

definition current_ns :: "protocol_context \<Rightarrow> string" where
  "current_ns ctx = (let v = strip (edNS ctx) in if v = [] then ''http://www.wipotec.com'' else v)"

definition iface_ver :: "protocol_context \<Rightarrow> string" where
  "iface_ver ctx = (let v = strip (edIface ctx) in if v = [] then ''1.15'' else v)"

definition db_ver :: "protocol_context \<Rightarrow> string option" where
  "db_ver ctx = (let v = strip (edDB ctx) in if v \<noteq> [] then Some v else None)"

definition agent :: "protocol_context \<Rightarrow> string" where
  "agent ctx = (let v = strip (edAgent ctx) in if v = [] then ''MW'' else v)"

text \<open>
  \<^verbatim>\<open>iso_now()\<close> reads the clock; its text is the argument \<open>now\<close>.
\<close>

definition build_tnt :: "protocol_context \<Rightarrow> string \<Rightarrow> string \<Rightarrow> string" where
  \<open>build_tnt ctx now inner_xml =
     (let db_attr = (if db_ver ctx \<noteq> None
                     then '' dbVersion="'' @ xml_escape (db_ver ctx) @ ''"'' else [])
      in ''<tnt version="'' @ xml_escape (Some (iface_ver ctx)) @ ''"'' @ db_attr @ '' ''
         @ ''xmlns="'' @ xml_escape (Some (current_ns ctx))
         @ ''" xmlns:xsi="http://www.w3.org/2001/XMLSchema-instance">''
         @ ''<header><agent>'' @ xml_escape (Some (agent ctx)) @ ''</agent><timestamp>'' @ now
         @ ''</timestamp></header>''
         @ inner_xml
         @ ''</tnt>'')\<close>

text \<open>
  A text is well escaped when it has none of the characters \<^verbatim>\<open>< > " '\<close> and every
  ampersand in it opens one of the five entities.
\<close>

fun well_escaped :: "string \<Rightarrow> bool" where
  \<open>well_escaped [] = True\<close>
| \<open>well_escaped (c # cs) =
     ((if c = CHR ''&''
       then startswith cs ''amp;'' \<or> startswith cs ''lt;'' \<or> startswith cs ''gt;''
            \<or> startswith cs ''quot;'' \<or> startswith cs ''apos;''
       else c \<noteq> CHR ''<'' \<and> c \<noteq> CHR ''>'' \<and> c \<noteq> CHR ''"'' \<and> c \<noteq> CHR 0x27)
      \<and> well_escaped cs)\<close>

text \<open>What \<^const>\<open>xml_escape\<close> does to one character.\<close>

definition escape_char :: "char \<Rightarrow> string" where
  \<open>escape_char c =
     (if c = CHR ''&'' then ''&amp;''
      else if c = CHR ''<'' then ''&lt;''
      else if c = CHR ''>'' then ''&gt;''
      else if c = CHR ''"'' then ''&quot;''
      else if c = CHR 0x27 then ''&apos;''
      else [c])\<close>

section \<open>The version negotiator\<close>

datatype error = ParseError | ValueError | IndexError | TransportError

text \<open>\<^verbatim>\<open>sub in s\<close> on strings.\<close>

fun contains :: "string \<Rightarrow> string \<Rightarrow> bool" where
  "contains sub [] = (sub = [])"
| "contains sub (c # cs) = (startswith (c # cs) sub \<or> contains sub cs)"

text \<open>
  \<^verbatim>\<open>re.search(r"<concerning>([^<]+)</concerning>", s)\<close>, giving group 1 of the leftmost match.
  At one position the group is the longest run of characters other than \<^verbatim>\<open><\<close> after the
  opening tag; it has to be non-empty and be followed by the closing tag, and no shorter run
  can match, since the character after it would not be \<^verbatim>\<open><\<close>.
\<close>

definition match_concerning :: "string \<Rightarrow> string option" where
  "match_concerning s =
     (if startswith s ''<concerning>''
      then (let r = drop 12 s; g = takeWhile (\<lambda>c. c \<noteq> CHR ''<'') r
            in if g \<noteq> [] \<and> startswith (drop (length g) r) ''</concerning>''
               then Some g else None)
      else None)"

fun search_concerning :: "string \<Rightarrow> string option" where
  "search_concerning [] = None"
| "search_concerning (c # cs) =
     (case match_concerning (c # cs) of Some g \<Rightarrow> Some g | None \<Rightarrow> search_concerning cs)"

text \<open>
  \<^verbatim>\<open>self.send_inner\<close> wraps the inner request, writes it to the socket and reads the answer.
  It is an argument here: a step on the state \<open>'w\<close> of the connection and the server, which
  gives the response text or fails as the transport does.
\<close>

type_synonym 'w sender = "string \<Rightarrow> 'w \<Rightarrow> (error + string) \<times> 'w"

text \<open>
  The loop of \<^verbatim>\<open>negotiate_and_send\<close> over the candidates that are left, with the variables
  \<^verbatim>\<open>last_resp\<close> and \<^verbatim>\<open>tried\<close>. An exception of \<^verbatim>\<open>send_inner\<close> leaves the function.
\<close>

fun negotiate_loop ::
  "'w sender \<Rightarrow> (string \<Rightarrow> string) \<Rightarrow> string list \<Rightarrow> string \<Rightarrow> string list \<Rightarrow> 'w
     \<Rightarrow> (error + string) \<times> 'w" where
  "negotiate_loop send_inner body_builder [] last_resp tried w = (Inr last_resp, w)"
| "negotiate_loop send_inner body_builder (ver # rest) last_resp tried w =
     (let tried = tried @ [ver] in
      case send_inner (body_builder ver) w of
        (Inl e, w1) \<Rightarrow> (Inl e, w1)
      | (Inr last_resp, w1) \<Rightarrow>
          if contains ''version-error'' last_resp then
            (case search_concerning last_resp of
               Some g \<Rightarrow>
                 (let want = strip g in
                  if want \<noteq> [] \<and> want \<notin> set tried then
                    (case send_inner (body_builder want) w1 of
                       (Inl e, w2) \<Rightarrow> (Inl e, w2)
                     | (Inr last_resp, w2) \<Rightarrow>
                         if contains ''version-error'' last_resp
                         then negotiate_loop send_inner body_builder rest last_resp tried w2
                         else (Inr last_resp, w2))
                  else negotiate_loop send_inner body_builder rest last_resp tried w1)
             | None \<Rightarrow> negotiate_loop send_inner body_builder rest last_resp tried w1)
          else (Inr last_resp, w1))"

definition negotiate_and_send ::
  "'w sender \<Rightarrow> string \<Rightarrow> string list \<Rightarrow> (string \<Rightarrow> string) \<Rightarrow> 'w
     \<Rightarrow> (error + string) \<times> 'w" where
  "negotiate_and_send send_inner xsi_type candidates body_builder w =
     negotiate_loop send_inner body_builder candidates [] [] w"

text \<open>
  A sender that also keeps the list of the inner requests it was given, in order: the
  state becomes the pair of that list and the state of the sender.
\<close>

definition logged :: "'w sender \<Rightarrow> (string list \<times> 'w) sender" where
  "logged send_inner inner_xml lw =
     (case send_inner inner_xml (snd lw) of (r, w') \<Rightarrow> (r, (fst lw @ [inner_xml], w')))"

text \<open>The body builder of \<^verbatim>\<open>on_get_articles\<close>.\<close>

definition get_article_list_builder :: "string \<Rightarrow> string" where
  \<open>get_article_list_builder v =
     ''<request xsi:type="get-article-list-request" version="'' @ v @ ''" id="1" />''\<close>

text \<open>
  Two servers to run the negotiator against. Both count the requests they get. The first
  answers every request with a version-error that names 1.1; the second accepts the
  article-list request of version 1.1 and answers every other request as the first does.
\<close>

definition version_error_1_1 :: string where
  "version_error_1_1 =
     ''<tnt><response><version-error><concerning>1.1</concerning></version-error></response></tnt>''"

definition server_always_wants_1_1 :: "nat sender" where
  "server_always_wants_1_1 inner_xml n = (Inr version_error_1_1, Suc n)"

definition server_accepts_1_1 :: "nat sender" where
  "server_accepts_1_1 inner_xml n =
     (if inner_xml = get_article_list_builder ''1.1''
      then (Inr ''<tnt><response><article><name>A</name></article></response></tnt>'', Suc n)
      else (Inr version_error_1_1, Suc n))"

section \<open>Candidate versions of the request handlers\<close>

text \<open>
  The literal \<^verbatim>\<open>candidates\<close> lists of the handlers that call \<^verbatim>\<open>negotiate_and_send\<close>.
\<close>

definition on_query_version_candidates :: "string list" where
  "on_query_version_candidates = [''1.0'', ''1.1'', ''2.0'']"

definition on_get_articles_candidates :: "string list" where
  "on_get_articles_candidates = [''2.0'', ''1.1'', ''1.0'']"

definition on_send_create_order_candidates :: "string list" where
  "on_send_create_order_candidates = [''2.0'', ''1.2'', ''1.1'', ''1.0'']"

definition on_send_import_order_candidates :: "string list" where
  "on_send_import_order_candidates = [''2.0'', ''1.2'', ''1.1'', ''1.0'']"

definition on_start_order_candidates :: "string list" where
  "on_start_order_candidates = [''2.0'', ''1.1'', ''1.0'']"

datatype request_type =
  QueryVersion | GetArticleList | GetArticleFields | CreateOrder | ImportOrder | StartOrder

text \<open>
  The list each request type hands to the negotiator. \<^verbatim>\<open>on_get_fields\<close> builds one request
  of version 1.0 and does not call \<^verbatim>\<open>negotiate_and_send\<close>: it has no list.
\<close>

fun candidates_for :: "request_type \<Rightarrow> string list option" where
  "candidates_for QueryVersion = Some on_query_version_candidates"
| "candidates_for GetArticleList = Some on_get_articles_candidates"
| "candidates_for GetArticleFields = None"
| "candidates_for CreateOrder = Some on_send_create_order_candidates"
| "candidates_for ImportOrder = Some on_send_import_order_candidates"
| "candidates_for StartOrder = Some on_start_order_candidates"

text \<open>A version text \<^verbatim>\<open>major.minor\<close> as a pair of numbers, and the order of versions.\<close>

definition digit_value :: "char \<Rightarrow> nat" where
  "digit_value c = of_char c - 48"

definition decimal_value :: "string \<Rightarrow> nat" where
  "decimal_value s = foldl (\<lambda>n c. 10 * n + digit_value c) 0 s"

definition version_key :: "string \<Rightarrow> nat \<times> nat" where
  "version_key v =
     (decimal_value (takeWhile (\<lambda>c. c \<noteq> CHR ''.'') v),
      decimal_value (drop 1 (dropWhile (\<lambda>c. c \<noteq> CHR ''.'') v)))"

definition version_less :: "string \<Rightarrow> string \<Rightarrow> bool" where
  "version_less a b =
     (fst (version_key a) < fst (version_key b)
      \<or> (fst (version_key a) = fst (version_key b) \<and> snd (version_key a) < snd (version_key b)))"

definition highest_first :: "string list \<Rightarrow> bool" where
  "highest_first vs = sorted_wrt (\<lambda>a b. version_less b a) vs"

definition lowest_first :: "string list \<Rightarrow> bool" where
  "lowest_first vs = sorted_wrt version_less vs"

section \<open>Response documents\<close>

text \<open>
  An element of \<^verbatim>\<open>xml.etree.ElementTree\<close>: its tag (\<^verbatim>\<open>{uri}local\<close> for a name in a
  namespace), its attribute dictionary, its text (\<^verbatim>\<open>None\<close> when there is none) and its
  children. A response text is seen through \<^verbatim>\<open>ET.fromstring\<close>: either it is rejected with a
  \<^verbatim>\<open>ParseError\<close>, or it is the tree of its root element.
\<close>

datatype elem =
  Elem (tag: string) (attrib: "(string \<times> string) list") (elem_text: "string option")
    (children: "elem list")

datatype document = Malformed | Document elem

text \<open>\<^verbatim>\<open>d.get(k, default)\<close> on a dictionary kept as an association list.\<close>

definition dict_get :: "('k \<times> 'v) list \<Rightarrow> 'k \<Rightarrow> 'v \<Rightarrow> 'v" where
  "dict_get d k dflt = (case map_of d k of None \<Rightarrow> dflt | Some v \<Rightarrow> v)"

text \<open>\<^verbatim>\<open>x or y\<close> on strings: the empty string is false.\<close>

definition str_or :: "string \<Rightarrow> string \<Rightarrow> string" where
  "str_or x y = (if x \<noteq> [] then x else y)"

text \<open>
  \<^verbatim>\<open>parse_tnt_meta\<close> has no exception handler of its own: the error of
  \<^verbatim>\<open>ET.fromstring\<close> leaves it.
\<close>

definition parse_tnt_meta :: "document \<Rightarrow> error + (string \<times> string \<times> string \<times> elem)" where
  "parse_tnt_meta xml_text =
     (case xml_text of
        Malformed \<Rightarrow> Inl ParseError
      | Document root \<Rightarrow>
          (let ns = (if startswith (tag root) ''{''
                     then takeWhile (\<lambda>c. c \<noteq> CHR ''}'') (drop 1 (tag root))
                     else str_or (dict_get (attrib root) ''xmlns'' []) ''http://www.wipotec.com'');
               tnt_version = str_or (dict_get (attrib root) ''version'' []) [];
               dbv = str_or (dict_get (attrib root) ''dbVersion'' []) []
           in Inr (ns, tnt_version, dbv, root)))"

text \<open>
  The \<^verbatim>\<open>try\<close> block of \<^verbatim>\<open>on_query_version\<close>, on the response of the negotiation: each line
  edit is set when the parsed value is not empty, and any exception is swallowed.
\<close>

definition on_query_version_refresh :: "protocol_context \<Rightarrow> document \<Rightarrow> protocol_context" where
  "on_query_version_refresh ctx resp =
     (case parse_tnt_meta resp of
        Inl e \<Rightarrow> ctx
      | Inr (ns, tnt_v, dbv, root) \<Rightarrow>
          (let ctx1 = (if tnt_v \<noteq> [] then ctx\<lparr>edIface := tnt_v\<rparr> else ctx);
               ctx2 = (if dbv \<noteq> [] then ctx1\<lparr>edDB := dbv\<rparr> else ctx1)
           in if ns \<noteq> [] then ctx2\<lparr>edNS := ns\<rparr> else ctx2))"

section \<open>Python text functions used by the parsers\<close>

text \<open>
  \<^verbatim>\<open>str.isdigit\<close>: below 256 the digits are \<^verbatim>\<open>0\<close> to \<^verbatim>\<open>9\<close> and the superscripts two, three
  and one (178, 179, 185), which \<^verbatim>\<open>int\<close> does not accept.
\<close>

definition is_ascii_digit :: "char \<Rightarrow> bool" where
  "is_ascii_digit c = (48 \<le> (of_char c :: nat) \<and> (of_char c :: nat) \<le> 57)"

definition py_isdigit_char :: "char \<Rightarrow> bool" where
  "py_isdigit_char c = (is_ascii_digit c \<or> (of_char c :: nat) \<in> {178, 179, 185})"

definition py_isdigit :: "string \<Rightarrow> bool" where
  "py_isdigit s = (s \<noteq> [] \<and> list_all py_isdigit_char s)"

text \<open>
  The digits of an \<^verbatim>\<open>int\<close> literal: decimal digits, with single underscores between
  digits allowed.
\<close>

fun int_digits_ok :: "string \<Rightarrow> bool" where
  "int_digits_ok [] = False"
| "int_digits_ok [c] = is_ascii_digit c"
| "int_digits_ok (c # d # cs) =
     (is_ascii_digit c \<and> (if d = CHR ''_'' then int_digits_ok cs else int_digits_ok (d # cs)))"

text \<open>
  The limit of Python 3.12 on the number of digits in a conversion between \<^verbatim>\<open>int\<close> and
  \<^verbatim>\<open>str\<close>.
\<close>

definition max_str_digits :: nat where
  "max_str_digits = 4300"

text \<open>
  \<^verbatim>\<open>int(s)\<close>: white space around the literal is dropped, a sign may come first, and a
  literal of more than 4300 digits is refused. The white
  space of \<^verbatim>\<open>int\<close> is not that of \<^verbatim>\<open>str.strip\<close>: it is the characters 9 to 13 and 32, and
  the spaces 133 and 160; the separators 28 to 31 are refused.
\<close>

definition int_isspace :: "char \<Rightarrow> bool" where
  "int_isspace c = ((of_char c :: nat) \<in> {9, 10, 11, 12, 13, 32, 133, 160})"

definition int_strip :: "string \<Rightarrow> string" where
  "int_strip s = rev (dropWhile int_isspace (rev (dropWhile int_isspace s)))"

definition py_int :: "string \<Rightarrow> error + int" where
  "py_int s =
     (let t = int_strip s;
          negative = startswith t ''-'';
          body = (if startswith t ''-'' \<or> startswith t ''+'' then drop 1 t else t);
          digits = filter (\<lambda>c. c \<noteq> CHR ''_'') body
      in if int_digits_ok body \<and> length digits \<le> max_str_digits
         then Inr (if negative then - int (decimal_value digits) else int (decimal_value digits))
         else Inl ValueError)"

text \<open>\<^verbatim>\<open>str.lower\<close> below 256: the letters A to Z and the capital letters from 192 to 222.\<close>

definition py_lower_char :: "char \<Rightarrow> char" where
  "py_lower_char c =
     (let n = (of_char c :: nat)
      in if (65 \<le> n \<and> n \<le> 90) \<or> (192 \<le> n \<and> n \<le> 222 \<and> n \<noteq> 215)
         then char_of (n + 32) else c)"

definition py_lower :: "string \<Rightarrow> string" where
  "py_lower s = map py_lower_char s"

section \<open>Walking a document\<close>

definition strip_ns :: "string \<Rightarrow> error + string" where
  "strip_ns t =
     (if startswith t ''{''
      then (case dropWhile (\<lambda>c. c \<noteq> CHR ''}'') t of
              [] \<Rightarrow> Inl IndexError
            | c # rest \<Rightarrow> Inr rest)
      else Inr t)"

text \<open>\<^verbatim>\<open>(ch.text or "")\<close>.\<close>

definition text_or_empty :: "elem \<Rightarrow> string" where
  "text_or_empty ch = (case elem_text ch of None \<Rightarrow> [] | Some t \<Rightarrow> t)"

text \<open>
  \<^verbatim>\<open>el.iter()\<close>: the element and its descendants in document order. Each element comes
  with its position, the list of child indices that leads to it from \<^verbatim>\<open>el\<close>; the position
  stands for the identity of the element object (\<^verbatim>\<open>id(sub)\<close> in the source).
\<close>

type_synonym path = "nat list"

fun iter :: "elem \<Rightarrow> (path \<times> elem) list"
  and iter_children :: "nat \<Rightarrow> elem list \<Rightarrow> (path \<times> elem) list" where
  "iter (Elem t a x cs) = ([], Elem t a x cs) # iter_children 0 cs"
| "iter_children i [] = []"
| "iter_children i (c # cs) = map (\<lambda>(p, x). (i # p, x)) (iter c) @ iter_children (Suc i) cs"

section \<open>parse_article_names\<close>

text \<open>\<^verbatim>\<open>next((c for c in el if strip_ns(c.tag) == local), None)\<close>.\<close>

fun first_child :: "string \<Rightarrow> elem list \<Rightarrow> error + elem option" where
  "first_child local [] = Inr None"
| "first_child local (c # cs) =
     (case strip_ns (tag c) of
        Inl e \<Rightarrow> Inl e
      | Inr l \<Rightarrow> if l = local then Inr (Some c) else first_child local cs)"

text \<open>
  The loop over \<^verbatim>\<open>root.iter()\<close> with the list \<^verbatim>\<open>names\<close>. An exception ends the loop, and the
  names collected so far are returned.
\<close>

fun article_loop :: "elem list \<Rightarrow> string list \<Rightarrow> string list" where
  "article_loop [] names = names"
| "article_loop (el # els) names =
     (case strip_ns (tag el) of
        Inl e \<Rightarrow> names
      | Inr l \<Rightarrow>
          if l = ''article'' then
            (case first_child ''name'' (children el) of
               Inl e \<Rightarrow> names
             | Inr None \<Rightarrow> article_loop els names
             | Inr (Some nm) \<Rightarrow>
                 if strip (text_or_empty nm) \<noteq> []
                 then article_loop els (names @ [strip (text_or_empty nm)])
                 else article_loop els names)
          else article_loop els names)"

definition parse_article_names :: "document \<Rightarrow> string list" where
  "parse_article_names xml_text =
     (case xml_text of
        Malformed \<Rightarrow> []
      | Document root \<Rightarrow> article_loop (map snd (iter root)) [])"

section \<open>parse_article_fields\<close>

text \<open>The values of a row dictionary.\<close>

datatype pyval = PNone | PBool bool | PInt int | PStr string

type_synonym row = "(string \<times> pyval) list"

text \<open>The first element of \<^verbatim>\<open>root.iter()\<close> whose local tag is \<^verbatim>\<open>response\<close>.\<close>

fun find_response :: "elem list \<Rightarrow> error + elem option" where
  "find_response [] = Inr None"
| "find_response (el # els) =
     (case strip_ns (tag el) of
        Inl e \<Rightarrow> Inl e
      | Inr l \<Rightarrow> if l = ''response'' then Inr (Some el) else find_response els)"

text \<open>
  The inner loop of the first pass over the children of an \<^verbatim>\<open>aggregation-level\<close> element:
  the level is 1 unless a child \<^verbatim>\<open>id\<close> with a digit text is found, and the first such child
  decides.
\<close>

fun find_level :: "elem list \<Rightarrow> error + int" where
  "find_level [] = Inr 1"
| "find_level (ch # chs) =
     (case strip_ns (tag ch) of
        Inl e \<Rightarrow> Inl e
      | Inr l \<Rightarrow>
          if l = ''id'' \<and> py_isdigit (strip (text_or_empty ch))
          then py_int (strip (text_or_empty ch))
          else find_level chs)"

text \<open>
  The first pass. \<^verbatim>\<open>level_map\<close> is keyed by the position of an element under the response
  node; \<open>p\<close> is the position of \<^verbatim>\<open>agg\<close>, so the elements of \<^verbatim>\<open>agg.iter()\<close> are at \<open>p @ q\<close>.
\<close>

type_synonym level_map = "path \<rightharpoonup> int"

fun level_pass :: "(path \<times> elem) list \<Rightarrow> level_map \<Rightarrow> error + level_map" where
  "level_pass [] level_map = Inr level_map"
| "level_pass ((p, agg) # rest) level_map =
     (case strip_ns (tag agg) of
        Inl e \<Rightarrow> Inl e
      | Inr l \<Rightarrow>
          if l = ''aggregation-level'' then
            (case find_level (children agg) of
               Inl e \<Rightarrow> Inl e
             | Inr lvl \<Rightarrow>
                 level_pass rest
                   (fold (\<lambda>(q, sub) m. m(p @ q \<mapsto> lvl)) (iter agg) level_map))
          else level_pass rest level_map)"

text \<open>The four variables the second pass sets from the direct children of a node.\<close>

record field_vars =
  name_text :: "string option"
  disp_text :: "string option"
  writable :: "string option"
  preset :: "string option"

text \<open>The \<^verbatim>\<open>if\<close>/\<^verbatim>\<open>elif\<close> chain on the local tag of one child.\<close>

definition assign_child :: "string \<Rightarrow> elem \<Rightarrow> field_vars \<Rightarrow> field_vars" where
  "assign_child l ch v =
     (if l = ''name'' then v\<lparr>name_text := Some (strip (text_or_empty ch))\<rparr>
      else if l = ''display-name'' then v\<lparr>disp_text := Some (strip (text_or_empty ch))\<rparr>
      else if l = ''writable'' then v\<lparr>writable := Some (strip (text_or_empty ch))\<rparr>
      else if l = ''value-set-by-article'' \<or> l = ''preset'' \<or> l = ''default-value''
        then v\<lparr>preset := Some (strip (text_or_empty ch))\<rparr>
      else v)"

fun scan_children :: "elem list \<Rightarrow> field_vars \<Rightarrow> error + field_vars" where
  "scan_children [] v = Inr v"
| "scan_children (ch # chs) v =
     (case strip_ns (tag ch) of
        Inl e \<Rightarrow> Inl e
      | Inr l \<Rightarrow> scan_children chs (assign_child l ch v))"

definition is_writable :: "string option \<Rightarrow> bool" where
  "is_writable w =
     (case w of
        None \<Rightarrow> True
      | Some t \<Rightarrow> py_lower t \<noteq> ''0'' \<and> py_lower t \<noteq> ''false'' \<and> py_lower t \<noteq> ''no'')"

definition make_row :: "int \<Rightarrow> string \<Rightarrow> string \<Rightarrow> field_vars \<Rightarrow> row" where
  "make_row lvl n d v =
     [(''level'', PInt lvl), (''name'', PStr n), (''display'', PStr d),
      (''writable'', PBool (is_writable (writable v))),
      (''preset'', case preset v of None \<Rightarrow> PNone | Some t \<Rightarrow> PStr t)]"

text \<open>
  The second pass over \<^verbatim>\<open>response.iter()\<close> with the list \<^verbatim>\<open>rows\<close>. An exception ends the loop,
  and the rows collected so far are returned.
\<close>

fun field_pass :: "(path \<times> elem) list \<Rightarrow> level_map \<Rightarrow> row list \<Rightarrow> row list" where
  "field_pass [] level_map rows = rows"
| "field_pass ((p, node) # rest) level_map rows =
     (case scan_children (children node)
             \<lparr>name_text = None, disp_text = None, writable = None, preset = None\<rparr> of
        Inl e \<Rightarrow> rows
      | Inr v \<Rightarrow>
          (case (name_text v, disp_text v) of
             (Some n, Some d) \<Rightarrow>
               field_pass rest level_map
                 (rows @ [make_row (case level_map p of None \<Rightarrow> 1 | Some lvl \<Rightarrow> lvl) n d v])
           | _ \<Rightarrow> field_pass rest level_map rows))"

definition parse_article_fields :: "document \<Rightarrow> row list" where
  "parse_article_fields xml_text =
     (case xml_text of
        Malformed \<Rightarrow> []
      | Document root \<Rightarrow>
          (case find_response (map snd (iter root)) of
             Inl e \<Rightarrow> []
           | Inr None \<Rightarrow> []
           | Inr (Some response) \<Rightarrow>
               (case level_pass (iter response) Map.empty of
                  Inl e \<Rightarrow> []
                | Inr level_map \<Rightarrow> field_pass (iter response) level_map [])))"

section \<open>Levels and fields, as the design states them\<close>




text \<open>
  \<^verbatim>\<open>level_map.get(id(node), 1)\<close>, and the positions of a list shifted under a position \<open>P\<close>.
\<close>

definition lookup_level :: "level_map \<Rightarrow> path \<Rightarrow> int" where
  "lookup_level m p = (case m p of None \<Rightarrow> 1 | Some lvl \<Rightarrow> lvl)"

definition under :: "path \<Rightarrow> (path \<times> elem) list \<Rightarrow> (path \<times> elem) list" where
  "under P xs = map (\<lambda>(q, x). (P @ q, x)) xs"



text \<open>
  The direct children of a node with a given local tag; the stripped text of the last of
  them, empty when that child has no text; a field is a node with a \<^verbatim>\<open>name\<close> child and a
  \<^verbatim>\<open>display-name\<close> child.
\<close>

definition children_named :: "string \<Rightarrow> elem \<Rightarrow> elem list" where
  "children_named l node = filter (\<lambda>ch. strip_ns (tag ch) = Inr l) (children node)"

definition has_child :: "string \<Rightarrow> elem \<Rightarrow> bool" where
  "has_child l node = (children_named l node \<noteq> [])"

definition child_text :: "string \<Rightarrow> elem \<Rightarrow> string" where
  "child_text l node =
     (if children_named l node = [] then []
      else strip (text_or_empty (last (children_named l node))))"

definition is_field :: "elem \<Rightarrow> bool" where
  "is_field node = (has_child ''name'' node \<and> has_child ''display-name'' node)"

text \<open>
  Tags on which \<^verbatim>\<open>strip_ns\<close> does not raise: every tag \<^verbatim>\<open>ET.fromstring\<close> produces is one.
\<close>

definition tags_ok :: "elem list \<Rightarrow> bool" where
  "tags_ok xs = list_all (\<lambda>x. strip_ns (tag x) \<noteq> Inl IndexError) xs"

text \<open>
  The variables of the second pass after the children of a node, and the row of a field at
  position \<open>p\<close>.
\<close>

definition scan_vars :: "elem \<Rightarrow> field_vars" where
  "scan_vars node =
     (case scan_children (children node)
             \<lparr>name_text = None, disp_text = None, writable = None, preset = None\<rparr> of
        Inl e \<Rightarrow> \<lparr>name_text = None, disp_text = None, writable = None, preset = None\<rparr>
      | Inr v \<Rightarrow> v)"

definition field_row :: "level_map \<Rightarrow> path \<Rightarrow> elem \<Rightarrow> row" where
  "field_row m p node =
     make_row (lookup_level m p) (child_text ''name'' node) (child_text ''display-name'' node)
       (scan_vars node)"

text \<open>
  The keys of a row dictionary, in insertion order.
\<close>

definition row_keys :: "row \<Rightarrow> string list" where
  "row_keys r = map fst r"

text \<open>
  What one element adds to the article list: the stripped text of its first \<^verbatim>\<open>name\<close> child
  when the element is an \<^verbatim>\<open>article\<close> and that text is not blank.
\<close>

definition article_name_of :: "elem \<Rightarrow> string list" where
  "article_name_of el =
     (if strip_ns (tag el) = Inr ''article'' then
        (case children_named ''name'' el of
           [] \<Rightarrow> []
         | nm # others \<Rightarrow> if strip (text_or_empty nm) \<noteq> [] then [strip (text_or_empty nm)] else [])
      else [])"



section \<open>Example documents\<close>

text \<open>
  A response with a level-2 marker inside a level-1 marker, a field without text in its
  \<^verbatim>\<open>name\<close> child, and two articles, one with a blank name; and a response whose field has a
  constraint element.
\<close>

definition nested_levels_response :: elem where
  "nested_levels_response =
     Elem ''{u}response'' [] None
       [Elem ''{u}aggregation-level'' [] None
          [Elem ''{u}id'' [] (Some ''1'') [],
           Elem ''{u}field'' [] None
             [Elem ''{u}name'' [] (Some ''a'') [], Elem ''{u}display-name'' [] (Some ''A'') []],
           Elem ''{u}aggregation-level'' [] None
             [Elem ''{u}id'' [] (Some '' 2 '') [],
              Elem ''{u}field'' [] None
                [Elem ''{u}name'' [] (Some ''b'') [], Elem ''{u}display-name'' [] (Some ''B'') [],
                 Elem ''{u}writable'' [] (Some ''0'') []]]],
        Elem ''{u}field'' [] None
          [Elem ''{u}name'' [] None [], Elem ''{u}display-name'' [] (Some ''  '') []],
        Elem ''{u}article'' [] None [Elem ''{u}name'' [] (Some '' '') []],
        Elem ''{u}article'' [] None [Elem ''{u}name'' [] (Some '' W '') []]]"

definition nested_levels_root :: elem where
  "nested_levels_root = Elem ''{u}tnt'' [(''version'', ''2.0'')] None [nested_levels_response]"

definition constrained_field_root :: elem where
  "constrained_field_root =
     Elem ''tnt'' [] None
       [Elem ''response'' [] None
          [Elem ''field'' [] None
             [Elem ''name'' [] (Some ''qty'') [],
              Elem ''display-name'' [] (Some ''Quantity'') [],
              Elem ''constraints'' [] None
                [Elem ''constraint'' [] None
                   [Elem ''type'' [] (Some ''27'') [], Elem ''value'' [] (Some ''[0-9]+'') []]]]]]"

text \<open>A root element in the namespace of the protocol, with a version and no dbVersion.\<close>

definition versioned_root :: elem where
  "versioned_root =
     Elem ''{http://www.wipotec.com}tnt'' [(''version'', ''2.0'')] None []"



section \<open>Numbers as text\<close>

text \<open>\<^verbatim>\<open>str(n)\<close> for an integer, as the f-strings use it.\<close>

definition digit_char :: "nat \<Rightarrow> char" where
  "digit_char d = char_of (48 + d)"

function str_nat :: "nat \<Rightarrow> string" where
  "str_nat n = (if n < 10 then [digit_char n] else str_nat (n div 10) @ [digit_char (n mod 10)])"
  by pat_completeness auto
termination
  by (relation "measure id") auto

declare str_nat.simps [simp del]

definition int_text :: "int \<Rightarrow> string" where
  "int_text i = (if i < 0 then CHR ''-'' # str_nat (nat (- i)) else str_nat (nat i))"

text \<open>
  \<^verbatim>\<open>str(i)\<close>, as the f-strings use it: the conversion raises \<^verbatim>\<open>ValueError\<close> for a number of
  more than 4300 digits.
\<close>

definition str_int :: "int \<Rightarrow> error + string" where
  "str_int i =
     (if length (str_nat (nat \<bar>i\<bar>)) > max_str_digits then Inl ValueError else Inr (int_text i))"



section \<open>The serial number block\<close>

text \<open>
  Byte strings are lists of \<^typ>\<open>char\<close>, one character for each byte.
  \<^verbatim>\<open>s.encode("utf-8")\<close> on code points below 256: one byte below 128, two bytes from 128 on.
\<close>

definition utf8_char :: "char \<Rightarrow> char list" where
  "utf8_char c =
     (let n = (of_char c :: nat)
      in if n < 128 then [c] else [char_of (192 + n div 64), char_of (128 + n mod 64)])"

definition utf8_encode :: "string \<Rightarrow> char list" where
  "utf8_encode s = concat (map utf8_char s)"





section \<open>The order data builder\<close>

text \<open>
  What \<^verbatim>\<open>build_order_data_xml_from_tree\<close> reads of the tree widget: of a top-level item the
  text of column 0 and its children; of a child the texts of columns 1 and 3 and the text of
  the editor in column 4, \<^verbatim>\<open>None\<close> when the widget there is not a line edit.
\<close>

record tree_child =
  text1 :: string
  text3 :: string
  editor :: "string option"

record tree_parent =
  text0 :: string
  child_items :: "tree_child list"

text \<open>\<^verbatim>\<open>filled.setdefault(lvl, []).append((name, val))\<close>.\<close>

definition append_filled ::
  "(int \<rightharpoonup> (string \<times> string) list) \<Rightarrow> int \<Rightarrow> string \<times> string
     \<Rightarrow> (int \<rightharpoonup> (string \<times> string) list)" where
  "append_filled filled lvl nv =
     filled(lvl \<mapsto> (case filled lvl of None \<Rightarrow> [] | Some xs \<Rightarrow> xs) @ [nv])"

text \<open>The inner loop over the children of one top-level item.\<close>

fun fill_children ::
  "int \<Rightarrow> tree_child list \<Rightarrow> (int \<rightharpoonup> (string \<times> string) list)
     \<Rightarrow> (int \<rightharpoonup> (string \<times> string) list)" where
  "fill_children lvl [] filled = filled"
| "fill_children lvl (it # its) filled =
     (if \<not> startswith (py_lower (text3 it)) ''y'' then fill_children lvl its filled
      else (let val = (case editor it of Some t \<Rightarrow> strip t | None \<Rightarrow> [])
            in if val = [] then fill_children lvl its filled
               else fill_children lvl its (append_filled filled lvl (text1 it, val))))"

text \<open>
  The outer loop. The set \<^verbatim>\<open>all_levels\<close> is kept as a list without duplicates; an item whose
  column 0 is not an integer is skipped.
\<close>

fun scan_items ::
  "tree_parent list \<Rightarrow> int list \<times> (int \<rightharpoonup> (string \<times> string) list)
     \<Rightarrow> int list \<times> (int \<rightharpoonup> (string \<times> string) list)" where
  "scan_items [] st = st"
| "scan_items (parent # rest) (all_levels, filled) =
     (case py_int (text0 parent) of
        Inl e \<Rightarrow> scan_items rest (all_levels, filled)
      | Inr lvl \<Rightarrow>
          scan_items rest (List.insert lvl all_levels, fill_children lvl (child_items parent) filled))"

text \<open>\<^verbatim>\<open>sep.join(parts)\<close>.\<close>

fun join :: "string \<Rightarrow> string list \<Rightarrow> string" where
  "join sep [] = []"
| "join sep [x] = x"
| "join sep (x # y # ys) = x @ sep @ join sep (y # ys)"

text \<open>The inner loop over the filled pairs of one level: four lines for each pair.\<close>

fun element_parts :: "(string \<times> string) list \<Rightarrow> string list \<Rightarrow> string list" where
  "element_parts [] parts = parts"
| "element_parts (nv # rest) parts =
     element_parts rest
       (parts @ [''      <element>'',
                 ''        <name>'' @ xml_escape (Some (fst nv)) @ ''</name>'',
                 ''        <value>'' @ xml_escape (Some (snd nv)) @ ''</value>'',
                 ''      </element>''])"

text \<open>
  The loop over the sorted levels. The f-string of the line \<^verbatim>\<open>id\<close> converts the level to text,
  which raises for a level of more than 4300 digits.
\<close>

fun level_parts ::
  "int list \<Rightarrow> (int \<rightharpoonup> (string \<times> string) list) \<Rightarrow> string list \<Rightarrow> error + string list" where
  "level_parts [] filled parts = Inr parts"
| "level_parts (lvl # rest) filled parts =
     (case str_int lvl of
        Inl e \<Rightarrow> Inl e
      | Inr t \<Rightarrow>
          level_parts rest filled
            (element_parts (case filled lvl of None \<Rightarrow> [] | Some xs \<Rightarrow> xs)
               (parts @ [''  <aggregation-level>'', ''    <id>'' @ t @ ''</id>'',
                         ''    <data-field-values>''])
             @ [''    </data-field-values>'', ''  </aggregation-level>'']))"

definition build_order_data_xml_from_tree :: "tree_parent list \<Rightarrow> error + string \<times> int list" where
  "build_order_data_xml_from_tree tree =
     (let (found, filled) = scan_items tree ([], Map.empty);
          all_levels = (if found = [] then [0] else found)
      in case level_parts (sort all_levels) filled [''<order-data>''] of
           Inl e \<Rightarrow> Inl e
         | Inr parts \<Rightarrow> Inr (join [CHR 0x0A] (parts @ [''</order-data>'']), sort all_levels))"

section \<open>The order data fragment, by level\<close>

text \<open>
  The fragment as the design states it: the value of a child is the stripped text of its
  editor; a child is filled when column 3 starts with y or Y and the value is not empty; the
  levels are the integers in column 0 of the top-level items, each once, in ascending order,
  or the single level 0 when there is none; the pairs of a level are the filled children of
  the items of that level, in the order of the tree.
\<close>

definition item_value :: "tree_child \<Rightarrow> string" where
  "item_value it = (case editor it of Some t \<Rightarrow> strip t | None \<Rightarrow> [])"

definition is_filled :: "tree_child \<Rightarrow> bool" where
  "is_filled it = (startswith (py_lower (text3 it)) ''y'' \<and> item_value it \<noteq> [])"

definition filled_pairs :: "tree_child list \<Rightarrow> (string \<times> string) list" where
  "filled_pairs its = map (\<lambda>it. (text1 it, item_value it)) (filter is_filled its)"

definition tree_levels :: "tree_parent list \<Rightarrow> int list" where
  "tree_levels tree =
     concat (map (\<lambda>parent. case py_int (text0 parent) of Inl e \<Rightarrow> [] | Inr lvl \<Rightarrow> [lvl]) tree)"

definition pairs_of_level :: "tree_parent list \<Rightarrow> int \<Rightarrow> (string \<times> string) list" where
  "pairs_of_level tree lvl =
     concat (map (\<lambda>parent. if py_int (text0 parent) = Inr lvl
                            then filled_pairs (child_items parent) else []) tree)"

definition order_levels :: "tree_parent list \<Rightarrow> int list" where
  "order_levels tree = (if tree_levels tree = [] then [0] else sort (remdups (tree_levels tree)))"

text \<open>
  The text of the fragment, line by line: every line ends with a line feed, but the last
  one. The entry of a pair holds the escaped name and the escaped value; the block of a level
  holds the level id in decimal digits and the entries of the pairs of the level.
\<close>

definition element_text :: "string \<times> string \<Rightarrow> string" where
  "element_text nv =
     ''      <element>\<newline>        <name>'' @ concat (map escape_char (fst nv))
     @ ''</name>\<newline>        <value>'' @ concat (map escape_char (snd nv))
     @ ''</value>\<newline>      </element>\<newline>''"

definition level_text :: "int \<Rightarrow> (string \<times> string) list \<Rightarrow> string" where
  "level_text lvl pairs =
     ''  <aggregation-level>\<newline>    <id>'' @ int_text lvl
     @ ''</id>\<newline>    <data-field-values>\<newline>''
     @ concat (map element_text pairs)
     @ ''    </data-field-values>\<newline>  </aggregation-level>\<newline>''"

definition order_data_text :: "tree_parent list \<Rightarrow> string" where
  "order_data_text tree =
     ''<order-data>\<newline>''
     @ concat (map (\<lambda>lvl. level_text lvl (pairs_of_level tree lvl)) (order_levels tree))
     @ ''</order-data>''"

definition filled_get :: "(int \<rightharpoonup> (string \<times> string) list) \<Rightarrow> int \<Rightarrow> (string \<times> string) list" where
  "filled_get filled lvl = (case filled lvl of None \<Rightarrow> [] | Some xs \<Rightarrow> xs)"

definition example_tree :: "tree_parent list" where
  "example_tree =
     [\<lparr>text0 = ''2'', child_items =
         [\<lparr>text1 = ''lot'', text3 = ''yes'', editor = Some ''  ''\<rparr>]\<rparr>,
      \<lparr>text0 = ''1'', child_items =
         [\<lparr>text1 = ''qty'', text3 = ''yes'', editor = Some '' 7 ''\<rparr>,
          \<lparr>text1 = ''color'', text3 = ''no'', editor = None\<rparr>,
          \<lparr>text1 = ''a<b'', text3 = ''Yes'', editor = Some ''x&y''\<rparr>]\<rparr>]"

section \<open>Escaping\<close>

lemma replace_chr_Nil [simp]: "replace_chr old new [] = []"
  by (simp add: replace_chr_def)

lemma replace_chr_Cons:
  "replace_chr old new (c # cs) = (if c = old then new else [c]) @ replace_chr old new cs"
  by (simp add: replace_chr_def)

lemma replace_chr_append:
  "replace_chr old new (xs @ ys) = replace_chr old new xs @ replace_chr old new ys"
  by (simp add: replace_chr_def)

lemma five_replaces:
  \<open>replace_chr (CHR 0x27) ''&apos;''
     (replace_chr (CHR ''"'') ''&quot;''
       (replace_chr (CHR ''>'') ''&gt;''
         (replace_chr (CHR ''<'') ''&lt;''
           (replace_chr (CHR ''&'') ''&amp;'' t)))) = concat (map escape_char t)\<close>
proof (induction t)
  case Nil
  show ?case by simp
next
  case (Cons c cs)
  show ?case
    unfolding replace_chr_Cons [of _ _ c cs] replace_chr_append
    using Cons.IH by (simp add: escape_char_def replace_chr_Cons)
qed

lemma xml_escape_chars: "xml_escape (Some t) = concat (map escape_char t)"
  by (cases t) (simp_all add: xml_escape_def five_replaces del: replace_chr_Nil)

lemma well_escaped_escape_char:
  "well_escaped cs \<Longrightarrow> well_escaped (escape_char c @ cs)"
  by (simp add: escape_char_def)

lemma well_escaped_xml_escape: "well_escaped (xml_escape s)"
proof (cases s)
  case None
  then show ?thesis by (simp add: xml_escape_def)
next
  case (Some t)
  have "well_escaped (concat (map escape_char t))"
    by (induction t) (simp_all add: well_escaped_escape_char del: well_escaped.simps(2))
  then show ?thesis by (simp add: Some xml_escape_chars)
qed


section \<open>The envelope escapes the operator's values\<close>

text \<open>
  C7. For every agent, interface version, dbVersion and namespace text, the envelope of
  \<^verbatim>\<open>build_tnt\<close> holds each of these values with every \<^verbatim>\<open>&\<close>, \<^verbatim>\<open><\<close>, \<^verbatim>\<open>>\<close>, double quote and
  single quote replaced by its entity (the dbVersion attribute only when the value is set),
  the escaped values have no bare \<^verbatim>\<open><\<close>, \<^verbatim>\<open>&\<close> or quote, and the inner request follows the
  header as it was given.
\<close>

theorem build_tnt_escapes_context:
  \<open>build_tnt ctx now inner_xml =
     ''<tnt version="'' @ concat (map escape_char (iface_ver ctx)) @ ''"''
     @ (case db_ver ctx of None \<Rightarrow> []
        | Some d \<Rightarrow> '' dbVersion="'' @ concat (map escape_char d) @ ''"'')
     @ '' xmlns="'' @ concat (map escape_char (current_ns ctx))
     @ ''" xmlns:xsi="http://www.w3.org/2001/XMLSchema-instance">''
     @ ''<header><agent>'' @ concat (map escape_char (agent ctx)) @ ''</agent><timestamp>''
     @ now @ ''</timestamp></header>'' @ inner_xml @ ''</tnt>''
   \<and> well_escaped (concat (map escape_char (iface_ver ctx)))
   \<and> well_escaped (concat (map escape_char (the_default [] (db_ver ctx))))
   \<and> well_escaped (concat (map escape_char (current_ns ctx)))
   \<and> well_escaped (concat (map escape_char (agent ctx)))\<close>
proof -
  have env: ?thesis if "db_ver ctx = None"
    using that well_escaped_xml_escape [of "Some (iface_ver ctx)"]
      well_escaped_xml_escape [of "Some (current_ns ctx)"]
      well_escaped_xml_escape [of "Some (agent ctx)"]
    by (simp add: build_tnt_def xml_escape_chars the_default_def)
  have env': ?thesis if "db_ver ctx = Some d" for d
    using that well_escaped_xml_escape [of "Some (iface_ver ctx)"]
      well_escaped_xml_escape [of "Some (current_ns ctx)"]
      well_escaped_xml_escape [of "Some (agent ctx)"]
      well_escaped_xml_escape [of "Some d"]
    by (simp add: build_tnt_def xml_escape_chars the_default_def)
  show ?thesis using env env' by (cases "db_ver ctx") blast+
qed

theorem build_tnt_escapes_context_witness:
  \<open>build_tnt \<lparr>edAgent = ''M&W'', edIface = ''<1.15>'', edDB = '' "7"'', edNS = ''urn:x ''\<rparr>
      ''T'' ''<request/>'' =
     ''<tnt version="&lt;1.15&gt;" dbVersion="&quot;7&quot;" xmlns="urn:x" xmlns:xsi="http://www.w3.org/2001/XMLSchema-instance"><header><agent>M&amp;W</agent><timestamp>T</timestamp></header><request/></tnt>''\<close>
  using build_tnt_escapes_context
    [of "\<lparr>edAgent = ''M&W'', edIface = ''<1.15>'', edDB = '' \"7\"'', edNS = ''urn:x ''\<rparr>"
      "''T''" "''<request/>''"]
  by (simp add: iface_ver_def db_ver_def current_ns_def agent_def strip_def py_isspace_def
      escape_char_def)

section \<open>Negotiation\<close>

lemma get_article_list_builder_inj:
  "get_article_list_builder v = get_article_list_builder v' \<longleftrightarrow> v = v'"
  by (simp add: get_article_list_builder_def)

text \<open>
  C1. When the answer to the first candidate has a version-error whose \<^verbatim>\<open><concerning>\<close> element
  names a version other than that candidate, and the request of the named version is
  answered without a version-error, \<^verbatim>\<open>negotiate_and_send\<close> returns that answer after
  exactly two sends, the first candidate and then the named version, whatever candidates
  are left: none of them is sent. With the candidates 2.0, 1.1, 1.0 and a server that wants
  1.1 these are the requests of 2.0 and of 1.1, and 1.0 is never sent.
\<close>

theorem negotiate_converges_in_two_sends:
  assumes first: "send_inner (body_builder ver) w = (Inr r1, w1)"
      and refused: "contains ''version-error'' r1"
      and named: "map_option strip (search_concerning r1) = Some want"
      and fresh: "want \<noteq> []" "want \<noteq> ver"
      and forced: "send_inner (body_builder want) w1 = (Inr r2, w2)"
      and accepted: "\<not> contains ''version-error'' r2"
  shows "negotiate_and_send (logged send_inner) xsi_type (ver # rest) body_builder ([], w)
           = (Inr r2, ([body_builder ver, body_builder want], w2))"
proof -
  from named obtain g where g: "search_concerning r1 = Some g" "strip g = want"
    by auto
  show ?thesis
    by (simp add: negotiate_and_send_def logged_def first forced refused accepted g fresh
        Let_def)
qed

theorem negotiate_converges_in_two_sends_witness:
  "negotiate_and_send (logged server_accepts_1_1) ''get-article-list-request''
     [''2.0'', ''1.1'', ''1.0''] get_article_list_builder ([], 0)
   = (Inr ''<tnt><response><article><name>A</name></article></response></tnt>'',
      ([get_article_list_builder ''2.0'', get_article_list_builder ''1.1''], 2))
   \<and> negotiate_and_send (logged server_accepts_1_1) ''get-article-list-request''
     [''2.0'', ''1.0''] get_article_list_builder ([], 0)
   = (Inr ''<tnt><response><article><name>A</name></article></response></tnt>'',
      ([get_article_list_builder ''2.0'', get_article_list_builder ''1.1''], 2))"
proof -
  have first: "server_accepts_1_1 (get_article_list_builder ''2.0'') 0 = (Inr version_error_1_1, 1)"
    by (simp add: server_accepts_1_1_def get_article_list_builder_inj)
  have refused: "contains ''version-error'' version_error_1_1"
    by (simp add: version_error_1_1_def)
  have named: "map_option strip (search_concerning version_error_1_1) = Some ''1.1''"
    by (simp add: version_error_1_1_def match_concerning_def strip_def py_isspace_def)
  have forced: "server_accepts_1_1 (get_article_list_builder ''1.1'') 1
      = (Inr ''<tnt><response><article><name>A</name></article></response></tnt>'', 2)"
    by (simp add: server_accepts_1_1_def)
  have accepted:
    "\<not> contains ''version-error'' ''<tnt><response><article><name>A</name></article></response></tnt>''"
    by simp
  have fresh: "''1.1'' \<noteq> []" "''1.1'' \<noteq> ''2.0''" by simp_all
  note two_sends = negotiate_converges_in_two_sends
    [of server_accepts_1_1 get_article_list_builder "''2.0''" 0 version_error_1_1 1 "''1.1''"
      "''<tnt><response><article><name>A</name></article></response></tnt>''" 2,
      OF first refused named fresh forced accepted]
  from two_sends [of "''get-article-list-request''" "[''1.1'', ''1.0'']"]
    two_sends [of "''get-article-list-request''" "[''1.0'']"]
  show ?thesis by blast
qed

text \<open>
  C5. The version of the forced retry is not added to \<^verbatim>\<open>tried\<close>, and the loop does not skip a
  candidate that was already sent. With the candidates of \<^verbatim>\<open>on_get_articles\<close> and a server
  that answers every request with a version-error naming 1.1, four requests are sent and
  the request of version 1.1 is sent twice: as the forced retry after 2.0, and again as
  the second candidate.
\<close>

theorem negotiate_sends_a_version_twice:
  "negotiate_and_send (logged server_always_wants_1_1) ''get-article-list-request''
     [''2.0'', ''1.1'', ''1.0''] get_article_list_builder ([], 0)
   = (Inr version_error_1_1,
      ([get_article_list_builder ''2.0'', get_article_list_builder ''1.1'',
        get_article_list_builder ''1.1'', get_article_list_builder ''1.0''], 4))"
  by (simp add: negotiate_and_send_def logged_def server_always_wants_1_1_def
      version_error_1_1_def match_concerning_def strip_def py_isspace_def Let_def)

section \<open>Candidate order\<close>

text \<open>
  C6, as stated, fails: the list of the query-version request starts at the oldest
  version, 1.0, and ends at 2.0.
\<close>

theorem query_version_candidates_not_highest_first:
  "candidates_for QueryVersion = Some [''1.0'', ''1.1'', ''2.0'']
   \<and> \<not> highest_first [''1.0'', ''1.1'', ''2.0'']"
  by (simp add: on_query_version_candidates_def highest_first_def version_less_def
      version_key_def decimal_value_def digit_value_def)

text \<open>
  C6, amended. The lists of get-article-list, create-order, import-order and start-order
  are ordered highest version first and end at 1.0. The list of query-version is ordered
  lowest version first, from 1.0 to 2.0. For get-article-fields no candidate list is handed
  to the negotiator.
\<close>

theorem candidate_lists_order:
  "candidates_for GetArticleList = Some on_get_articles_candidates
   \<and> highest_first on_get_articles_candidates \<and> last on_get_articles_candidates = ''1.0''
   \<and> candidates_for CreateOrder = Some on_send_create_order_candidates
   \<and> highest_first on_send_create_order_candidates
   \<and> last on_send_create_order_candidates = ''1.0''
   \<and> candidates_for ImportOrder = Some on_send_import_order_candidates
   \<and> highest_first on_send_import_order_candidates
   \<and> last on_send_import_order_candidates = ''1.0''
   \<and> candidates_for StartOrder = Some on_start_order_candidates
   \<and> highest_first on_start_order_candidates \<and> last on_start_order_candidates = ''1.0''
   \<and> candidates_for QueryVersion = Some on_query_version_candidates
   \<and> lowest_first on_query_version_candidates
   \<and> hd on_query_version_candidates = ''1.0'' \<and> last on_query_version_candidates = ''2.0''
   \<and> candidates_for GetArticleFields = None"
  by (simp add: on_query_version_candidates_def on_get_articles_candidates_def
      on_send_create_order_candidates_def on_send_import_order_candidates_def
      on_start_order_candidates_def highest_first_def lowest_first_def version_less_def
      version_key_def decimal_value_def digit_value_def)

section \<open>Response metadata\<close>

text \<open>
  C3, as stated, fails: on a text that \<^verbatim>\<open>ET.fromstring\<close> rejects, \<^verbatim>\<open>parse_tnt_meta\<close> raises the
  \<^verbatim>\<open>ParseError\<close> to its caller.
\<close>

theorem parse_tnt_meta_raises_on_malformed:
  "parse_tnt_meta Malformed = Inl ParseError"
  by (simp add: parse_tnt_meta_def)

text \<open>
  C3, amended. \<^verbatim>\<open>parse_tnt_meta\<close> raises exactly when the text is not well-formed XML. On a
  parsed document it returns the root with: as namespace the URI between the braces of the
  root tag, or for a tag without namespace the \<^verbatim>\<open>xmlns\<close> attribute when it is there and not
  empty and \<^verbatim>\<open>http://www.wipotec.com\<close> otherwise; as version and dbVersion the attributes
  of these names, the empty string when they are absent. The caller \<^verbatim>\<open>on_query_version\<close>
  catches the exception: a malformed response leaves namespace, version and dbVersion as
  they were, and a parsed one replaces each of them by the value that is not empty.
\<close>

theorem parse_tnt_meta_raises_only_on_malformed:
  "(parse_tnt_meta doc = Inl ParseError \<longleftrightarrow> doc = Malformed)
   \<and> parse_tnt_meta (Document root) =
       Inr (case tag root of
              [] \<Rightarrow> (case map_of (attrib root) ''xmlns'' of
                       None \<Rightarrow> ''http://www.wipotec.com''
                     | Some u \<Rightarrow> if u = [] then ''http://www.wipotec.com'' else u)
            | c # rest \<Rightarrow>
                if c = CHR ''{'' then takeWhile (\<lambda>c. c \<noteq> CHR ''}'') rest
                else (case map_of (attrib root) ''xmlns'' of
                        None \<Rightarrow> ''http://www.wipotec.com''
                      | Some u \<Rightarrow> if u = [] then ''http://www.wipotec.com'' else u),
            case map_of (attrib root) ''version'' of None \<Rightarrow> [] | Some v \<Rightarrow> v,
            case map_of (attrib root) ''dbVersion'' of None \<Rightarrow> [] | Some d \<Rightarrow> d,
            root)
   \<and> on_query_version_refresh ctx Malformed = ctx
   \<and> (parse_tnt_meta (Document root) = Inr (ns, v, d, root) \<longrightarrow>
        on_query_version_refresh ctx (Document root) =
          \<lparr>edAgent = edAgent ctx,
           edIface = (if v \<noteq> [] then v else edIface ctx),
           edDB = (if d \<noteq> [] then d else edDB ctx),
           edNS = (if ns \<noteq> [] then ns else edNS ctx)\<rparr>)"
proof -
  have a: "parse_tnt_meta doc = Inl ParseError \<longleftrightarrow> doc = Malformed"
    by (cases doc) (simp_all add: parse_tnt_meta_def Let_def)
  have b: "parse_tnt_meta (Document root) =
       Inr (case tag root of
              [] \<Rightarrow> (case map_of (attrib root) ''xmlns'' of
                       None \<Rightarrow> ''http://www.wipotec.com''
                     | Some u \<Rightarrow> if u = [] then ''http://www.wipotec.com'' else u)
            | c # rest \<Rightarrow>
                if c = CHR ''{'' then takeWhile (\<lambda>c. c \<noteq> CHR ''}'') rest
                else (case map_of (attrib root) ''xmlns'' of
                        None \<Rightarrow> ''http://www.wipotec.com''
                      | Some u \<Rightarrow> if u = [] then ''http://www.wipotec.com'' else u),
            case map_of (attrib root) ''version'' of None \<Rightarrow> [] | Some v \<Rightarrow> v,
            case map_of (attrib root) ''dbVersion'' of None \<Rightarrow> [] | Some d \<Rightarrow> d,
            root)"
    by (cases "tag root")
      (simp_all add: parse_tnt_meta_def Let_def str_or_def dict_get_def split: option.splits)
  have c: "on_query_version_refresh ctx Malformed = ctx"
    by (simp add: on_query_version_refresh_def parse_tnt_meta_def)
  have d: "on_query_version_refresh ctx (Document root) =
          \<lparr>edAgent = edAgent ctx,
           edIface = (if v \<noteq> [] then v else edIface ctx),
           edDB = (if d \<noteq> [] then d else edDB ctx),
           edNS = (if ns \<noteq> [] then ns else edNS ctx)\<rparr>"
    if "parse_tnt_meta (Document root) = Inr (ns, v, d, root)"
    using that by (cases ctx) (simp add: on_query_version_refresh_def Let_def)
  from a b c d show ?thesis by blast
qed

theorem parse_tnt_meta_raises_only_on_malformed_witness:
  "parse_tnt_meta (Document versioned_root) =
     Inr (''http://www.wipotec.com'', ''2.0'', [], versioned_root)
   \<and> on_query_version_refresh
       \<lparr>edAgent = ''MW'', edIface = ''1.15'', edDB = ''7'', edNS = ''urn:old''\<rparr>
       (Document versioned_root) =
     \<lparr>edAgent = ''MW'', edIface = ''2.0'', edDB = ''7'', edNS = ''http://www.wipotec.com''\<rparr>"
proof -
  note t = parse_tnt_meta_raises_only_on_malformed
    [of Malformed versioned_root
      "\<lparr>edAgent = ''MW'', edIface = ''1.15'', edDB = ''7'', edNS = ''urn:old''\<rparr>"
      "''http://www.wipotec.com''" "''2.0''" "[]"]
  have p: "parse_tnt_meta (Document versioned_root) =
     Inr (''http://www.wipotec.com'', ''2.0'', [], versioned_root)"
    using t by (simp add: versioned_root_def)
  with t show ?thesis by simp
qed

section \<open>The two passes of parse_article_fields\<close>

lemma under_Nil [simp]: "under P [] = []"
  by (simp add: under_def)

lemma under_Cons [simp]: "under P ((q, x) # xs) = (P @ q, x) # under P xs"
  by (simp add: under_def)

lemma under_append [simp]: "under P (xs @ ys) = under P xs @ under P ys"
  by (simp add: under_def)


lemma under_empty [simp]: "under [] xs = xs"
  by (induction xs) (auto simp: under_def)



lemma iter_self: "([], e) \<in> set (iter e)"
  by (cases e) simp



lemma strip_ns_cases: "strip_ns t = Inl IndexError \<or> (\<exists>l. strip_ns t = Inr l)"
  by (auto simp: strip_ns_def split: list.splits)





lemma iter_self': "e \<in> snd ` set (iter e)"
  using iter_self [of e] by force

lemma iter_closed:
  "\<forall>(p, x) \<in> set (iter e). set (children x) \<subseteq> snd ` set (iter e)"
  and iter_children_closed:
  "set cs \<subseteq> snd ` set (iter_children i cs)
   \<and> (\<forall>(p, x) \<in> set (iter_children i cs). set (children x) \<subseteq> snd ` set (iter_children i cs))"
proof (induction e and i cs rule: iter_iter_children.induct)
  case (1 t a x cs)
  then show ?case by auto
next
  case (2 i)
  then show ?case by simp
next
  case (3 i c cs)
  have img: "snd ` set (iter_children i (c # cs)) = snd ` set (iter c) \<union> snd ` set (iter_children (Suc i) cs)"
    by (force simp: image_Un)
  have "c \<in> snd ` set (iter c)" by (rule iter_self')
  moreover have "set cs \<subseteq> snd ` set (iter_children (Suc i) cs)" using "3.IH"(2) by blast
  ultimately have a: "set (c # cs) \<subseteq> snd ` set (iter_children i (c # cs))"
    unfolding img by auto
  have b: "set (children y) \<subseteq> snd ` set (iter_children i (c # cs))"
    if "(p, y) \<in> set (iter_children i (c # cs))" for p y
  proof -
    from that consider q where "(q, y) \<in> set (iter c)"
      | "(p, y) \<in> set (iter_children (Suc i) cs)" by auto
    then show ?thesis
    proof cases
      case 1
      with "3.IH"(1) have "set (children y) \<subseteq> snd ` set (iter c)" by blast
      then show ?thesis unfolding img by blast
    next
      case 2
      with "3.IH"(2) have "set (children y) \<subseteq> snd ` set (iter_children (Suc i) cs)" by blast
      then show ?thesis unfolding img by blast
    qed
  qed
  from a b show ?case by blast
qed

lemma level_pass_tags:
  "level_pass xs m = Inr m' \<Longrightarrow> tags_ok (map snd xs)"
proof (induction xs arbitrary: m)
  case Nil
  show ?case by (simp add: tags_ok_def)
next
  case (Cons a xs)
  obtain p agg where a: "a = (p, agg)" by (cases a)
  from Cons.prems obtain m1 where "strip_ns (tag agg) \<noteq> Inl IndexError" "level_pass xs m1 = Inr m'"
    unfolding a by (auto split: sum.splits if_splits)
  with Cons.IH show ?case by (auto simp: a tags_ok_def)
qed

lemma tags_ok_children:
  assumes "tags_ok (map snd (iter e))" and "(p, x) \<in> set (iter e)"
  shows "tags_ok (children x)"
proof -
  from iter_closed [of e] assms(2) have "set (children x) \<subseteq> snd ` set (iter e)" by blast
  with assms(1) show ?thesis by (auto simp: tags_ok_def list_all_iff)
qed

lemma assign_child_name:
  "name_text (assign_child l ch v) =
     (if l = ''name'' then Some (strip (text_or_empty ch)) else name_text v)"
  by (simp add: assign_child_def)

lemma assign_child_disp:
  "disp_text (assign_child l ch v) =
     (if l = ''display-name'' then Some (strip (text_or_empty ch)) else disp_text v)"
  by (simp add: assign_child_def)

lemma pick_last:
  assumes "a' = (if filter P chs = [] then a1 else Some (f (last (filter P chs))))"
    and "a1 = (if P ch then Some (f ch) else a)"
  shows "a' = (if filter P (ch # chs) = [] then a else Some (f (last (filter P (ch # chs)))))"
  using assms by simp

lemma scan_children_result:
  "tags_ok chs \<Longrightarrow>
    \<exists>v'. scan_children chs v = Inr v'
      \<and> name_text v' = (if filter (\<lambda>ch. strip_ns (tag ch) = Inr ''name'') chs = [] then name_text v
           else Some (strip (text_or_empty (last (filter (\<lambda>ch. strip_ns (tag ch) = Inr ''name'') chs)))))
      \<and> disp_text v' = (if filter (\<lambda>ch. strip_ns (tag ch) = Inr ''display-name'') chs = [] then disp_text v
           else Some (strip (text_or_empty (last (filter (\<lambda>ch. strip_ns (tag ch) = Inr ''display-name'') chs)))))"
proof (induction chs arbitrary: v)
  case Nil
  show ?case by simp
next
  case (Cons ch chs)
  from Cons.prems obtain l where l: "strip_ns (tag ch) = Inr l" and rest: "tags_ok chs"
    using strip_ns_cases [of "tag ch"] by (auto simp: tags_ok_def)
  define v1 where "v1 = assign_child l ch v"
  have step: "scan_children (ch # chs) v = scan_children chs v1"
    by (simp add: l v1_def)
  have n1: "name_text v1 = (if strip_ns (tag ch) = Inr ''name'' then Some (strip (text_or_empty ch)) else name_text v)"
    unfolding v1_def assign_child_name l by simp
  have d1: "disp_text v1 = (if strip_ns (tag ch) = Inr ''display-name'' then Some (strip (text_or_empty ch)) else disp_text v)"
    unfolding v1_def assign_child_disp l by simp
  from Cons.IH [OF rest, of v1] obtain v' where
    run: "scan_children chs v1 = Inr v'"
    and n: "name_text v' = (if filter (\<lambda>ch. strip_ns (tag ch) = Inr ''name'') chs = [] then name_text v1
           else Some (strip (text_or_empty (last (filter (\<lambda>ch. strip_ns (tag ch) = Inr ''name'') chs)))))"
    and d: "disp_text v' = (if filter (\<lambda>ch. strip_ns (tag ch) = Inr ''display-name'') chs = [] then disp_text v1
           else Some (strip (text_or_empty (last (filter (\<lambda>ch. strip_ns (tag ch) = Inr ''display-name'') chs)))))"
    by blast
  have "scan_children (ch # chs) v = Inr v'" using step run by simp
  moreover note pick_last [of "name_text v'" "\<lambda>ch. strip_ns (tag ch) = Inr ''name''" chs "name_text v1"
      "\<lambda>ch. strip (text_or_empty ch)" ch "name_text v", OF n n1]
  moreover note pick_last [of "disp_text v'" "\<lambda>ch. strip_ns (tag ch) = Inr ''display-name''" chs "disp_text v1"
      "\<lambda>ch. strip (text_or_empty ch)" ch "disp_text v", OF d d1]
  ultimately show ?case by blast
qed

lemma field_pass_step:
  assumes "tags_ok (children node)"
  shows "field_pass ((p, node) # rest) m rows =
           field_pass rest m (rows @ (if is_field node then [field_row m p node] else []))"
proof -
  let ?init = "\<lparr>name_text = None, disp_text = None, writable = None, preset = None\<rparr>"
  from scan_children_result [OF assms, of ?init] obtain v' where
    run: "scan_children (children node) ?init = Inr v'"
    and n: "name_text v' = (if children_named ''name'' node = [] then None
              else Some (child_text ''name'' node))"
    and d: "disp_text v' = (if children_named ''display-name'' node = [] then None
              else Some (child_text ''display-name'' node))"
    by (auto simp: children_named_def child_text_def)
  have sv: "scan_vars node = v'" by (simp add: scan_vars_def run)
  show ?thesis
  proof (cases "is_field node")
    case True
    then have "name_text v' = Some (child_text ''name'' node)"
      "disp_text v' = Some (child_text ''display-name'' node)"
      using n d by (simp_all add: is_field_def has_child_def)
    with True show ?thesis
      by (simp add: run field_row_def sv lookup_level_def)
  next
    case False
    then have "name_text v' = None \<or> disp_text v' = None"
      using n d by (auto simp: is_field_def has_child_def)
    with False show ?thesis
      by (auto simp: run split: option.splits)
  qed
qed

lemma field_pass_rows:
  "\<forall>(p, node) \<in> set xs. tags_ok (children node) \<Longrightarrow>
     field_pass xs m rows =
       rows @ map (\<lambda>(p, node). field_row m p node) (filter (\<lambda>(p, node). is_field node) xs)"
proof (induction xs arbitrary: rows)
  case Nil
  show ?case by simp
next
  case (Cons a xs)
  obtain p node where a: "a = (p, node)" by (cases a)
  from Cons.prems have ok: "tags_ok (children node)"
    and rest: "\<forall>(p, node) \<in> set xs. tags_ok (children node)"
    by (auto simp: a)
  show ?case
    unfolding a field_pass_step [OF ok] Cons.IH [OF rest] by simp
qed

lemma parse_article_fields_rows:
  assumes "find_response (map snd (iter root)) = Inr (Some response)"
    and "level_pass (iter response) Map.empty = Inr m"
  shows "parse_article_fields (Document root) =
           map (\<lambda>(p, node). field_row m p node) (filter (\<lambda>(p, node). is_field node) (iter response))"
proof -
  from level_pass_tags [OF assms(2)] have "tags_ok (map snd (iter response))" .
  then have "\<forall>(p, node) \<in> set (iter response). tags_ok (children node)"
    using tags_ok_children by blast
  from field_pass_rows [OF this, of m "[]"] show ?thesis
    by (simp add: parse_article_fields_def assms)
qed



lemma make_row_name: "dict_get (make_row lvl n d v) ''name'' x = PStr n"
  by (simp add: make_row_def dict_get_def)

lemma make_row_display: "dict_get (make_row lvl n d v) ''display'' x = PStr d"
  by (simp add: make_row_def dict_get_def)

lemma make_row_keys:
  "row_keys (make_row lvl n d v) = [''level'', ''name'', ''display'', ''writable'', ''preset'']"
  by (simp add: make_row_def row_keys_def)

lemma first_child_result:
  "tags_ok chs \<Longrightarrow>
     first_child l chs =
       Inr (case filter (\<lambda>ch. strip_ns (tag ch) = Inr l) chs of [] \<Rightarrow> None | c # others \<Rightarrow> Some c)"
proof (induction chs)
  case Nil
  show ?case by simp
next
  case (Cons ch chs)
  from Cons.prems obtain k where k: "strip_ns (tag ch) = Inr k" and rest: "tags_ok chs"
    using strip_ns_cases [of "tag ch"] by (auto simp: tags_ok_def)
  show ?case using Cons.IH [OF rest] by (simp add: k)
qed

lemma article_loop_step:
  assumes "strip_ns (tag el) \<noteq> Inl IndexError" and "tags_ok (children el)"
  shows "article_loop (el # els) names = article_loop els (names @ article_name_of el)"
proof -
  from assms(1) obtain k where k: "strip_ns (tag el) = Inr k"
    using strip_ns_cases [of "tag el"] by auto
  show ?thesis
    by (simp add: k article_name_of_def first_child_result [OF assms(2)] children_named_def
        split: list.splits)
qed

lemma article_loop_names:
  "tags_ok xs \<Longrightarrow> \<forall>x \<in> set xs. tags_ok (children x) \<Longrightarrow>
     article_loop xs names = names @ concat (map article_name_of xs)"
proof (induction xs arbitrary: names)
  case Nil
  show ?case by simp
next
  case (Cons el els)
  from Cons.prems have a: "strip_ns (tag el) \<noteq> Inl IndexError" "tags_ok (children el)"
    and b: "tags_ok els" "\<forall>x \<in> set els. tags_ok (children x)"
    by (auto simp: tags_ok_def)
  show ?case
    unfolding article_loop_step [OF a] Cons.IH [OF b] by simp
qed

lemma parse_article_names_spec:
  assumes "tags_ok (map snd (iter root))"
  shows "parse_article_names (Document root) = concat (map (\<lambda>(p, el). article_name_of el) (iter root))"
proof -
  have "\<forall>x \<in> set (map snd (iter root)). tags_ok (children x)"
    using tags_ok_children [OF assms] by auto
  from article_loop_names [OF assms this, of "[]"] show ?thesis
    by (simp add: parse_article_names_def map_map comp_def case_prod_unfold)
qed

lemma field_pass_Cons_cases:
  "field_pass ((p, node) # rest) m rows = rows
   \<or> field_pass ((p, node) # rest) m rows = field_pass rest m rows
   \<or> (\<exists>lvl n d v. field_pass ((p, node) # rest) m rows =
          field_pass rest m (rows @ [make_row lvl n d v]))"
  by (simp split: sum.splits option.splits) blast

lemma field_pass_keys:
  "\<forall>r \<in> set rows. row_keys r = [''level'', ''name'', ''display'', ''writable'', ''preset''] \<Longrightarrow>
   \<forall>r \<in> set (field_pass xs m rows).
      row_keys r = [''level'', ''name'', ''display'', ''writable'', ''preset'']"
proof (induction xs arbitrary: rows)
  case Nil
  then show ?case by simp
next
  case (Cons a xs)
  obtain p node where a: "a = (p, node)" by (cases a)
  from field_pass_Cons_cases [of p node xs m rows]
  consider "field_pass (a # xs) m rows = rows"
    | "field_pass (a # xs) m rows = field_pass xs m rows"
    | lvl n d v where "field_pass (a # xs) m rows = field_pass xs m (rows @ [make_row lvl n d v])"
    unfolding a by blast
  then show ?case
  proof cases
    case 1
    with Cons.prems show ?thesis by simp
  next
    case 2
    with Cons.IH [OF Cons.prems] show ?thesis by simp
  next
    case 3
    have "\<forall>r \<in> set (rows @ [make_row lvl n d v]).
        row_keys r = [''level'', ''name'', ''display'', ''writable'', ''preset'']"
      using Cons.prems by (simp add: make_row_keys)
    from Cons.IH [OF this] 3 show ?thesis by simp
  qed
qed

lemmas eval_text = strip_ns_def text_or_empty_def strip_def py_isspace_def int_strip_def
  int_isspace_def py_isdigit_def
  py_isdigit_char_def is_ascii_digit_def py_int_def Let_def decimal_value_def digit_value_def
  assign_child_def max_str_digits_def

section \<open>Field extraction\<close>






text \<open>
  C10. When the response node is found and no pass raises, the rows of
  \<^verbatim>\<open>parse_article_fields\<close> are the elements under the response node that have a direct child
  with local tag \<^verbatim>\<open>name\<close> and one with local tag \<^verbatim>\<open>display-name\<close>, whatever their text: the
  name and display of a row are the stripped texts of the last such children, the empty
  string for a child without text. \<^verbatim>\<open>parse_article_names\<close> collects an article only when its
  first \<^verbatim>\<open>name\<close> child has a text that is not blank.
\<close>

theorem fields_by_presence_of_children:
  assumes "find_response (map snd (iter root)) = Inr (Some response)"
    and "level_pass (iter response) Map.empty = Inr level_map"
    and "tags_ok (map snd (iter root))"
  shows "map (\<lambda>r. (dict_get r ''name'' PNone, dict_get r ''display'' PNone))
             (parse_article_fields (Document root)) =
           map (\<lambda>(p, node). (PStr (child_text ''name'' node), PStr (child_text ''display-name'' node)))
             (filter (\<lambda>(p, node). has_child ''name'' node \<and> has_child ''display-name'' node)
                (iter response))
         \<and> parse_article_names (Document root) =
             concat (map (\<lambda>(p, el). article_name_of el) (iter root))"
  by (simp add: parse_article_fields_rows [OF assms(1,2)] parse_article_names_spec [OF assms(3)]
      field_row_def make_row_name make_row_display comp_def case_prod_unfold is_field_def)

theorem fields_by_presence_of_children_witness:
  "map (\<lambda>r. (dict_get r ''name'' PNone, dict_get r ''display'' PNone))
       (parse_article_fields (Document nested_levels_root))
     = [(PStr ''a'', PStr ''A''), (PStr ''b'', PStr ''B''), (PStr [], PStr [])]
   \<and> parse_article_names (Document nested_levels_root) = [''W'']"
proof -
  have fr: "find_response (map snd (iter nested_levels_root)) = Inr (Some nested_levels_response)"
    by (simp add: nested_levels_root_def nested_levels_response_def strip_ns_def)
  have "\<exists>m. level_pass (iter nested_levels_response) Map.empty = Inr m"
    by (simp add: nested_levels_response_def eval_text)
  then obtain m where lp: "level_pass (iter nested_levels_response) Map.empty = Inr m" ..
  have ok: "tags_ok (map snd (iter nested_levels_root))"
    by (simp add: nested_levels_root_def nested_levels_response_def tags_ok_def strip_ns_def)
  from fields_by_presence_of_children [OF fr lp ok]
  have "map (\<lambda>r. (dict_get r ''name'' PNone, dict_get r ''display'' PNone))
             (parse_article_fields (Document nested_levels_root)) =
           map (\<lambda>(p, node). (PStr (child_text ''name'' node), PStr (child_text ''display-name'' node)))
             (filter (\<lambda>(p, node). has_child ''name'' node \<and> has_child ''display-name'' node)
                (iter nested_levels_response))"
    and "parse_article_names (Document nested_levels_root) =
             concat (map (\<lambda>(p, el). article_name_of el) (iter nested_levels_root))"
    by blast+
  moreover have "map (\<lambda>(p, node). (PStr (child_text ''name'' node), PStr (child_text ''display-name'' node)))
             (filter (\<lambda>(p, node). has_child ''name'' node \<and> has_child ''display-name'' node)
                (iter nested_levels_response))
        = [(PStr ''a'', PStr ''A''), (PStr ''b'', PStr ''B''), (PStr [], PStr [])]"
    by (simp add: nested_levels_response_def has_child_def children_named_def child_text_def
        eval_text)
  moreover have "concat (map (\<lambda>(p, el). article_name_of el) (iter nested_levels_root)) = [''W'']"
    by (simp add: nested_levels_root_def nested_levels_response_def article_name_of_def
        children_named_def eval_text)
  ultimately show ?thesis by simp
qed

text \<open>
  No row of \<^verbatim>\<open>parse_article_fields\<close> has another key than level, name, display, writable and
  preset, whatever the document.
\<close>

lemma field_rows_have_five_keys:
  "\<forall>r \<in> set (parse_article_fields doc).
      row_keys r = [''level'', ''name'', ''display'', ''writable'', ''preset'']"
proof (cases doc)
  case Malformed
  then show ?thesis by (simp add: parse_article_fields_def)
next
  case (Document root)
  have empty: "\<forall>r \<in> set ([] :: row list).
      row_keys r = [''level'', ''name'', ''display'', ''writable'', ''preset'']" by simp
  show ?thesis
    unfolding Document parse_article_fields_def
    using field_pass_keys [OF empty]
    by (simp split: sum.splits option.splits) blast
qed

text \<open>
  C4. The claim says that the constraint elements in the subtree of a field are recorded in
  the row of the field. The code does not read them: for a field whose subtree holds a
  constraint element of type 27 with the value \<^verbatim>\<open>[0-9]+\<close>, the row has the five keys level,
  name, display, writable and preset, and no key \<^verbatim>\<open>constraints\<close>.
\<close>

theorem constraints_are_not_extracted:
  "parse_article_fields (Document constrained_field_root) =
     [[(''level'', PInt 1), (''name'', PStr ''qty''), (''display'', PStr ''Quantity''),
       (''writable'', PBool True), (''preset'', PNone)]]
   \<and> map_of (hd (parse_article_fields (Document constrained_field_root))) ''constraints'' = None"
  by (simp add: parse_article_fields_def constrained_field_root_def make_row_def is_writable_def
      eval_text)

section \<open>The serial number block\<close>




lemma str_nat_ne: "str_nat n \<noteq> []"
  by (simp add: str_nat.simps [of n])

lemma str_nat_length: "1 \<le> k \<Longrightarrow> length (str_nat n) \<le> k \<longleftrightarrow> n < 10 ^ k"
proof (induction n arbitrary: k rule: str_nat.induct)
  case (1 n)
  show ?case
  proof (cases "n < 10")
    case True
    have "(10::nat) ^ 1 \<le> 10 ^ k"
      using "1.prems" by (intro power_increasing) simp_all
    with True have "n < 10 ^ k" by simp
    with True "1.prems" show ?thesis by (simp add: str_nat.simps [of n])
  next
    case False
    show ?thesis
    proof (cases "k = 1")
      case True
      have "length (str_nat (n div 10)) \<noteq> 0" using str_nat_ne by simp
      with False True show ?thesis by (simp add: str_nat.simps [of n])
    next
      case k: False
      with "1.prems" obtain j where j: "k = Suc j" "1 \<le> j" by (cases k) auto
      from "1.IH" [OF False j(2)]
      have "length (str_nat (n div 10)) \<le> j \<longleftrightarrow> n div 10 < 10 ^ j" .
      also have "\<dots> \<longleftrightarrow> n < 10 ^ j * 10" by (simp add: div_less_iff_less_mult)
      finally show ?thesis using False j by (simp add: str_nat.simps [of n] mult.commute)
    qed
  qed
qed

lemma max_str_digits_pos: "1 \<le> max_str_digits"
  by (simp add: max_str_digits_def)

lemma str_int_cases:
  "str_int i = (if \<bar>i\<bar> < 10 ^ max_str_digits then Inr (int_text i) else Inl ValueError)"
proof -
  have "nat \<bar>i\<bar> < 10 ^ max_str_digits \<longleftrightarrow> \<bar>i\<bar> < 10 ^ max_str_digits"
    by (simp add: nat_less_iff)
  with str_nat_length [OF max_str_digits_pos, of "nat \<bar>i\<bar>"] show ?thesis
    by (auto simp add: str_int_def)
qed

lemma small_below_limit: "\<bar>i\<bar> < 10 \<Longrightarrow> \<bar>i\<bar> < (10::int) ^ max_str_digits"
proof -
  assume "\<bar>i\<bar> < 10"
  moreover have "(10::int) ^ 1 \<le> 10 ^ max_str_digits"
    using max_str_digits_pos by (intro power_increasing) simp_all
  ultimately show ?thesis by simp
qed



lemma utf8_encode_append: "utf8_encode (xs @ ys) = utf8_encode xs @ utf8_encode ys"
  by (simp add: utf8_encode_def)

lemma digit_chars:
  "digit_char 0 = CHR ''0''" "digit_char 1 = CHR ''1''" "digit_char 2 = CHR ''2''"
  "digit_char 3 = CHR ''3''" "digit_char 4 = CHR ''4''" "digit_char 5 = CHR ''5''"
  "digit_char 6 = CHR ''6''" "digit_char 7 = CHR ''7''" "digit_char 8 = CHR ''8''"
  "digit_char 9 = CHR ''9''" "digit_char (Suc 0) = CHR ''1''"
  unfolding digit_char_def by code_simp+

lemma str_nat_digit: "n < 10 \<Longrightarrow> str_nat n = [digit_char n]"
  by (simp add: str_nat.simps [of n])










section \<open>The order data builder\<close>

lemma filled_get_append:
  "filled_get (append_filled f lvl nv) l = filled_get f l @ (if l = lvl then [nv] else [])"
  by (simp add: filled_get_def append_filled_def)

lemma fill_children_get:
  "filled_get (fill_children lvl its f) l =
     filled_get f l @ (if l = lvl then filled_pairs its else [])"
proof (induction its arbitrary: f)
  case Nil
  show ?case by (simp add: filled_pairs_def)
next
  case (Cons it its)
  show ?case
  proof (cases "is_filled it")
    case True
    then have "fill_children lvl (it # its) f =
        fill_children lvl its (append_filled f lvl (text1 it, item_value it))"
      by (simp add: is_filled_def item_value_def Let_def)
    then show ?thesis
      using True by (simp add: Cons.IH filled_get_append filled_pairs_def)
  next
    case False
    then have "fill_children lvl (it # its) f = fill_children lvl its f"
      by (auto simp: is_filled_def item_value_def Let_def)
    then show ?thesis
      using False by (simp add: Cons.IH filled_pairs_def)
  qed
qed

lemma scan_items_result:
  "scan_items tree (lv, f) = (lv', f') \<Longrightarrow>
     set lv' = set lv \<union> set (tree_levels tree)
     \<and> (distinct lv \<longrightarrow> distinct lv')
     \<and> (\<forall>l. filled_get f' l = filled_get f l @ pairs_of_level tree l)"
proof (induction tree arbitrary: lv f)
  case Nil
  then show ?case by (simp add: tree_levels_def pairs_of_level_def)
next
  case (Cons parent rest)
  show ?case
  proof (cases "py_int (text0 parent)")
    case (Inl e)
    with Cons.prems have "scan_items rest (lv, f) = (lv', f')" by simp
    from Cons.IH [OF this] show ?thesis
      using Inl by (simp add: tree_levels_def pairs_of_level_def)
  next
    case (Inr lvl)
    with Cons.prems have
      "scan_items rest (List.insert lvl lv, fill_children lvl (child_items parent) f) = (lv', f')"
      by simp
    from Cons.IH [OF this] show ?thesis
      using Inr by (auto simp: tree_levels_def pairs_of_level_def fill_children_get)
  qed
qed

lemma no_levels_no_pairs: "tree_levels tree = [] \<Longrightarrow> pairs_of_level tree lvl = []"
  by (induction tree) (auto simp: tree_levels_def pairs_of_level_def split: sum.splits)

lemma ascii_digit_not_underscore: "is_ascii_digit c \<Longrightarrow> c \<noteq> CHR ''_''"
  by (auto simp: is_ascii_digit_def)

lemma int_digits_ok_digits:
  "int_digits_ok body \<Longrightarrow> list_all is_ascii_digit (filter (\<lambda>c. c \<noteq> CHR ''_'') body)"
  by (induction body rule: int_digits_ok.induct)
    (auto simp: ascii_digit_not_underscore split: if_splits)

lemma decimal_fold_bound:
  "list_all is_ascii_digit ds \<Longrightarrow>
     foldl (\<lambda>n c. 10 * n + digit_value c) a ds < (a + 1) * 10 ^ length ds"
proof (induction ds arbitrary: a)
  case Nil
  show ?case by simp
next
  case (Cons d ds)
  from Cons.prems have rest: "list_all is_ascii_digit ds"
    by simp
  from Cons.prems have "(of_char d :: nat) \<le> 57"
    by (simp add: is_ascii_digit_def)
  then have d: "digit_value d \<le> 9"
    unfolding digit_value_def by arith
  from Cons.IH [OF rest, of "10 * a + digit_value d"]
  have "foldl (\<lambda>n c. 10 * n + digit_value c) (10 * a + digit_value d) ds
          < (10 * a + digit_value d + 1) * 10 ^ length ds" .
  also have "\<dots> \<le> (10 * a + 10) * 10 ^ length ds"
    using d by (intro mult_right_mono) simp_all
  also have "\<dots> = (a + 1) * 10 ^ length (d # ds)"
    by (simp add: algebra_simps)
  finally show ?case by simp
qed

lemma decimal_value_bound:
  assumes "list_all is_ascii_digit ds" and "length ds \<le> k"
  shows "decimal_value ds < 10 ^ k"
proof -
  from decimal_fold_bound [OF assms(1), of 0]
  have "decimal_value ds < 10 ^ length ds" by (simp add: decimal_value_def)
  also have "(10::nat) ^ length ds \<le> 10 ^ k"
    using assms(2) by (intro power_increasing) simp_all
  finally show ?thesis .
qed

lemma py_int_bound:
  assumes "py_int s = Inr l"
  shows "\<bar>l\<bar> < 10 ^ max_str_digits"
proof -
  define body where
    "body = (if startswith (int_strip s) ''-'' \<or> startswith (int_strip s) ''+''
             then drop 1 (int_strip s) else int_strip s)"
  define digits where "digits = filter (\<lambda>c. c \<noteq> CHR ''_'') body"
  from assms have ok: "int_digits_ok body" and len: "length digits \<le> max_str_digits"
    and l: "\<bar>l\<bar> = int (decimal_value digits)"
    by (auto simp: py_int_def Let_def body_def digits_def split: if_splits)
  from int_digits_ok_digits [OF ok] have "list_all is_ascii_digit digits"
    by (simp add: digits_def)
  from decimal_value_bound [OF this len]
  have "int (decimal_value digits) < int (10 ^ max_str_digits)"
    by (simp only: of_nat_less_iff)
  with l show ?thesis by simp
qed

lemma tree_levels_bound: "l \<in> set (tree_levels tree) \<Longrightarrow> \<bar>l\<bar> < 10 ^ max_str_digits"
  by (auto simp: tree_levels_def py_int_bound split: sum.splits)

lemma order_levels_bound: "l \<in> set (order_levels tree) \<Longrightarrow> \<bar>l\<bar> < 10 ^ max_str_digits"
  using tree_levels_bound [of l tree] small_below_limit [of 0]
  by (auto simp: order_levels_def split: if_splits)

lemma join_lines:
  "join [CHR 0x0A] (xs @ [z]) = concat (map (\<lambda>x. x @ [CHR 0x0A]) xs) @ z"
proof (induction xs)
  case Nil
  show ?case by simp
next
  case (Cons x xs)
  then show ?case by (cases xs) simp_all
qed

lemma element_parts_text:
  "concat (map (\<lambda>x. x @ [CHR 0x0A]) (element_parts pairs parts))
     = concat (map (\<lambda>x. x @ [CHR 0x0A]) parts) @ concat (map element_text pairs)"
  by (induction pairs arbitrary: parts) (simp_all add: element_text_def xml_escape_chars)

lemma level_parts_text:
  assumes "\<And>l. l \<in> set lvls \<Longrightarrow> \<bar>l\<bar> < 10 ^ max_str_digits"
  shows "\<exists>parts'. level_parts lvls filled parts = Inr parts'
           \<and> concat (map (\<lambda>x. x @ [CHR 0x0A]) parts')
               = concat (map (\<lambda>x. x @ [CHR 0x0A]) parts)
                 @ concat (map (\<lambda>lvl. level_text lvl (filled_get filled lvl)) lvls)"
  using assms
proof (induction lvls arbitrary: parts)
  case Nil
  show ?case by simp
next
  case (Cons lvl lvls)
  have s: "str_int lvl = Inr (int_text lvl)"
    using Cons.prems [of lvl] by (simp add: str_int_cases)
  define next_parts where
    "next_parts = element_parts (filled_get filled lvl)
        (parts @ [''  <aggregation-level>'', ''    <id>'' @ int_text lvl @ ''</id>'',
                  ''    <data-field-values>''])
      @ [''    </data-field-values>'', ''  </aggregation-level>'']"
  have step: "level_parts (lvl # lvls) filled parts = level_parts lvls filled next_parts"
    by (simp add: s next_parts_def filled_get_def)
  have text_of: "concat (map (\<lambda>x. x @ [CHR 0x0A]) next_parts)
      = concat (map (\<lambda>x. x @ [CHR 0x0A]) parts) @ level_text lvl (filled_get filled lvl)"
    by (simp add: next_parts_def element_parts_text level_text_def)
  from Cons.IH [of next_parts] Cons.prems obtain parts' where
    "level_parts lvls filled next_parts = Inr parts'"
    "concat (map (\<lambda>x. x @ [CHR 0x0A]) parts')
       = concat (map (\<lambda>x. x @ [CHR 0x0A]) next_parts)
         @ concat (map (\<lambda>lvl. level_text lvl (filled_get filled lvl)) lvls)"
    by auto
  with step text_of show ?case by simp
qed

lemma int_text_0: "int_text 0 = ''0''"
  by (simp add: int_text_def str_nat_digit digit_chars)

lemma char_of_121: "char_of (121::nat) = CHR ''y''"
  by code_simp

text \<open>
  C9. For every tree of fields, \<^verbatim>\<open>build_order_data_xml_from_tree\<close> returns, and its fragment
  has one \<^verbatim>\<open>aggregation-level\<close> block for each distinct level of the tree, in strictly
  ascending order of the level id, also for a level none of whose fields is filled; the block
  of a level lists the filled (name, value) pairs of that level in the order of the tree,
  with name and value escaped; and when the tree has no level, the fragment is the single
  block of level 0 with no element. The second component is the list of these levels.
\<close>

theorem order_data_blocks:
  "build_order_data_xml_from_tree tree = Inr (order_data_text tree, order_levels tree)
   \<and> sorted_wrt (<) (order_levels tree)
   \<and> set (order_levels tree) = (if tree_levels tree = [] then {0} else set (tree_levels tree))
   \<and> (tree_levels tree = [] \<longrightarrow>
        order_data_text tree =
          ''<order-data>\<newline>  <aggregation-level>\<newline>    <id>0</id>\<newline>    <data-field-values>\<newline>    </data-field-values>\<newline>  </aggregation-level>\<newline></order-data>'')"
proof -
  obtain found filled where sc: "scan_items tree ([], Map.empty) = (found, filled)"
    by (cases "scan_items tree ([], Map.empty)")
  from scan_items_result [OF sc] have
    lv: "set found = set (tree_levels tree)" and dist: "distinct found"
    and get: "\<And>l. filled_get filled l = pairs_of_level tree l"
    by (simp_all add: filled_get_def)
  from lv have empty: "found = [] \<longleftrightarrow> tree_levels tree = []"
    by (metis set_empty)
  have "sort found = sort (remdups (tree_levels tree))"
    by (rule sorted_distinct_set_unique) (simp_all add: dist lv)
  with empty have levels: "sort (if found = [] then [0] else found) = order_levels tree"
    by (simp add: order_levels_def)
  from level_parts_text [of "order_levels tree" filled "[''<order-data>'']"] order_levels_bound
  obtain parts where parts: "level_parts (order_levels tree) filled [''<order-data>''] = Inr parts"
    and text_of: "concat (map (\<lambda>x. x @ [CHR 0x0A]) parts)
       = ''<order-data>\<newline>''
         @ concat (map (\<lambda>lvl. level_text lvl (filled_get filled lvl)) (order_levels tree))"
    by auto
  have "join [CHR 0x0A] (parts @ [''</order-data>'']) = order_data_text tree"
    by (simp only: join_lines text_of get order_data_text_def append_assoc)
  with parts have run:
    "build_order_data_xml_from_tree tree = Inr (order_data_text tree, order_levels tree)"
    by (simp add: build_order_data_xml_from_tree_def sc Let_def levels)
  have strict: "sorted_wrt (<) (order_levels tree)"
    by (simp add: order_levels_def strict_sorted_iff)
  have members: "set (order_levels tree) =
      (if tree_levels tree = [] then {0} else set (tree_levels tree))"
    by (simp add: order_levels_def)
  have placeholder: "order_data_text tree =
          ''<order-data>\<newline>  <aggregation-level>\<newline>    <id>0</id>\<newline>    <data-field-values>\<newline>    </data-field-values>\<newline>  </aggregation-level>\<newline></order-data>''"
    if "tree_levels tree = []"
    using that
    by (simp add: order_data_text_def order_levels_def no_levels_no_pairs level_text_def
        int_text_0)
  from run strict members placeholder show ?thesis by blast
qed

theorem order_data_blocks_witness:
  "build_order_data_xml_from_tree example_tree =
     Inr (''<order-data>\<newline>  <aggregation-level>\<newline>    <id>1</id>\<newline>    <data-field-values>\<newline>      <element>\<newline>        <name>qty</name>\<newline>        <value>7</value>\<newline>      </element>\<newline>      <element>\<newline>        <name>a&lt;b</name>\<newline>        <value>x&amp;y</value>\<newline>      </element>\<newline>    </data-field-values>\<newline>  </aggregation-level>\<newline>  <aggregation-level>\<newline>    <id>2</id>\<newline>    <data-field-values>\<newline>    </data-field-values>\<newline>  </aggregation-level>\<newline></order-data>'',
          [1, 2])
   \<and> build_order_data_xml_from_tree [] =
     Inr (''<order-data>\<newline>  <aggregation-level>\<newline>    <id>0</id>\<newline>    <data-field-values>\<newline>    </data-field-values>\<newline>  </aggregation-level>\<newline></order-data>'',
          [0])"
proof -
  have l1: "py_int ''1'' = Inr 1" and l2: "py_int ''2'' = Inr 2"
    by (simp_all add: py_int_def int_strip_def int_isspace_def is_ascii_digit_def
        decimal_value_def digit_value_def max_str_digits_def)
  have levels: "order_levels example_tree = [1, 2]"
    by (simp add: order_levels_def tree_levels_def example_tree_def l1 l2)
  have s: "int_text 1 = ''1''" "int_text 2 = ''2''"
    by (simp_all add: int_text_def str_nat_digit digit_chars)
  have p1: "pairs_of_level example_tree 1 = [(''qty'', ''7''), (''a<b'', ''x&y'')]"
    by (simp add: pairs_of_level_def example_tree_def l1 l2 filled_pairs_def is_filled_def
        item_value_def py_lower_def py_lower_char_def strip_def py_isspace_def char_of_121)
  have p2: "pairs_of_level example_tree 2 = []"
    by (simp add: pairs_of_level_def example_tree_def l1 l2 filled_pairs_def is_filled_def
        item_value_def py_lower_def py_lower_char_def strip_def py_isspace_def)
  have doc: "order_data_text example_tree =
     ''<order-data>\<newline>  <aggregation-level>\<newline>    <id>1</id>\<newline>    <data-field-values>\<newline>      <element>\<newline>        <name>qty</name>\<newline>        <value>7</value>\<newline>      </element>\<newline>      <element>\<newline>        <name>a&lt;b</name>\<newline>        <value>x&amp;y</value>\<newline>      </element>\<newline>    </data-field-values>\<newline>  </aggregation-level>\<newline>  <aggregation-level>\<newline>    <id>2</id>\<newline>    <data-field-values>\<newline>    </data-field-values>\<newline>  </aggregation-level>\<newline></order-data>''"
    unfolding order_data_text_def levels
    by (simp add: p1 p2 s level_text_def element_text_def escape_char_def)
  have none: "tree_levels [] = []" "order_levels [] = [0]"
    by (simp_all add: tree_levels_def order_levels_def)
  from order_data_blocks [of example_tree] order_data_blocks [of "[]"] show ?thesis
    by (simp only: doc levels none)
qed

end
